theory Spec2Isabelle
  imports Main
begin

section \<open>Python values, exceptions and callables\<close>

text \<open>
  The module \<^verbatim>\<open>asyncio_extras/threads.py\<close> has three entry points: the class
  \<^verbatim>\<open>_ThreadSwitcher\<close> (a decorator and an asynchronous context manager), the function
  \<^verbatim>\<open>threadpool\<close> that builds one, and the function \<^verbatim>\<open>call_in_executor\<close>.
  Exceptions are values of the type \<open>exn\<close>; a computation that may raise returns
  \<open>exn + 'a\<close>, with \<open>Inl\<close> for the raised exception.
\<close>

datatype exn =
    RuntimeError string
  | AssertionError string
  | AttributeError string
  | ZeroDivisionError string
  | TypeError string
  | NameError string

datatype pyval = VNone | VInt int | VStr string | VExecutor nat

type_synonym kwargs = "(string \<times> pyval) list"

text \<open>
  A callable acts on some state \<open>'w\<close> of the program (everything its body may read or
  write) and returns a value or raises. \<open>iscoroutinefunction\<close> is the answer of
  \<^verbatim>\<open>inspect.iscoroutinefunction\<close> for it.
\<close>

record 'w callable =
  iscoroutinefunction :: bool
  body :: "pyval list \<Rightarrow> kwargs \<Rightarrow> 'w \<Rightarrow> (exn + pyval) \<times> 'w"

text \<open>\<^verbatim>\<open>functools.partial(func, *args, **kwargs)\<close>, and calling it with no argument.\<close>

datatype 'w partial = Partial "'w callable" "pyval list" kwargs

fun call_partial :: "'w partial \<Rightarrow> 'w \<Rightarrow> (exn + pyval) \<times> 'w" where
  "call_partial (Partial func args kwargs) w = body func args kwargs w"

section \<open>The collaborators: event loop, executors, futures\<close>

text \<open>
  The event loop and the executors belong to the Python standard library
  (\<^verbatim>\<open>asyncio\<close>, \<^verbatim>\<open>concurrent.futures\<close>), not to this module. They are modelled
  after their documented behaviour, as far as the module relies on it:
  \<^item> an executor is an object with an identity (\<open>VExecutor e\<close>); its state is a
    shutdown flag and the queue of the tasks submitted and not yet run, each with the
    future that will receive its outcome;
  \<^item> \<^verbatim>\<open>Executor.submit\<close> raises \<^verbatim>\<open>RuntimeError\<close> after shutdown, and queues the
    task otherwise;
  \<^item> \<^verbatim>\<open>loop.run_in_executor(executor, func)\<close> raises \<^verbatim>\<open>RuntimeError\<close> on a closed
    loop, takes the loop's default executor for \<^verbatim>\<open>None\<close>, submits, and returns the
    future;
  \<^item> a future is pending (\<open>None\<close>) or holds the value or the exception of its task;
  \<^item> \<^verbatim>\<open>get_event_loop()\<close> returns the loop on a thread that has one and raises
    \<^verbatim>\<open>RuntimeError\<close> on a thread that has none.
\<close>

record 'w pool =
  is_shutdown :: bool
  work_queue :: "(nat \<times> 'w partial) list"

record 'w system =
  world :: 'w
  loop_closed :: bool
  default_executor :: nat
  pools :: "nat \<Rightarrow> 'w pool"
  futures :: "(exn + pyval) option list"

datatype thread = EventLoopThread | OtherThread

definition get_event_loop :: "thread \<Rightarrow> exn + unit" where
  "get_event_loop t =
     (case t of
        EventLoopThread \<Rightarrow> Inr ()
      | OtherThread \<Rightarrow> Inl (RuntimeError ''There is no current event loop in thread''))"

definition executor_of :: "pyval \<Rightarrow> 'w system \<Rightarrow> exn + nat" where
  "executor_of executor s =
     (case executor of
        VNone \<Rightarrow> Inr (default_executor s)
      | VExecutor e \<Rightarrow> Inr e
      | _ \<Rightarrow> Inl (AttributeError ''object has no attribute 'submit' ''))"

definition submit :: "nat \<Rightarrow> 'w partial \<Rightarrow> 'w system \<Rightarrow> exn + (nat \<times> 'w system)" where
  "submit e task s =
     (if is_shutdown (pools s e)
      then Inl (RuntimeError ''cannot schedule new futures after shutdown'')
      else let fid = length (futures s) in
        Inr (fid,
             s\<lparr>pools := (pools s)
                  (e := (pools s e)\<lparr>work_queue := work_queue (pools s e) @ [(fid, task)]\<rparr>),
               futures := futures s @ [None]\<rparr>))"

definition run_in_executor ::
    "pyval \<Rightarrow> 'w partial \<Rightarrow> 'w system \<Rightarrow> exn + (nat \<times> 'w system)" where
  "run_in_executor executor func s =
     (if loop_closed s then Inl (RuntimeError ''Event loop is closed'')
      else case executor_of executor s of
             Inl err \<Rightarrow> Inl err
           | Inr e \<Rightarrow> submit e func s)"

text \<open>
  A worker thread runs a task to its end and stores the outcome, value or exception,
  in the task's future. \<open>worker_drain e\<close> runs the whole queue of the pool \<open>e\<close>, oldest
  task first.
\<close>

definition run_task :: "nat \<times> 'w partial \<Rightarrow> 'w system \<Rightarrow> 'w system" where
  "run_task t s =
     (case t of (fid, callback) \<Rightarrow>
        (case call_partial callback (world s) of (r, w') \<Rightarrow>
           s\<lparr>world := w', futures := (futures s)[fid := Some r]\<rparr>))"

fun run_tasks :: "(nat \<times> 'w partial) list \<Rightarrow> 'w system \<Rightarrow> 'w system" where
  "run_tasks [] s = s"
| "run_tasks (t # ts) s = run_tasks ts (run_task t s)"

definition worker_drain :: "nat \<Rightarrow> 'w system \<Rightarrow> 'w system" where
  "worker_drain e s =
     run_tasks (work_queue (pools s e))
       (s\<lparr>pools := (pools s)(e := (pools s e)\<lparr>work_queue := []\<rparr>)\<rparr>)"

section \<open>The dispatch wrapper: \<^verbatim>\<open>_ThreadSwitcher.__call__\<close>\<close>

text \<open>
  \<^verbatim>\<open>__slots__ = 'executor', 'exited', 'event_loop_thread'\<close>; the constructor sets the
  first two, and nothing ever sets or reads the third.
\<close>

record switcher =
  executor :: pyval
  exited :: bool

definition ts_init :: "pyval \<Rightarrow> switcher" where
  "ts_init ex = \<lparr>executor = ex, exited = False\<rparr>"

text \<open>What a call of the wrapper returns: the callable's own value, or a future.\<close>

datatype ret = Direct pyval | Deferred nat

text \<open>
  \<^verbatim>\<open>
  def wrapper(*args, **kwargs):
      try:
          loop = get_event_loop()
      except RuntimeError:
          return func(*args, **kwargs)
      else:
          callback = partial(func, *args, **kwargs)
          return loop.run_in_executor(self.executor, callback)
  \<close>
\<close>

definition wrapper ::
    "switcher \<Rightarrow> 'w callable \<Rightarrow> thread \<Rightarrow> pyval list \<Rightarrow> kwargs \<Rightarrow> 'w system
      \<Rightarrow> (exn + ret) \<times> 'w system" where
  "wrapper self func t args kwargs s =
     (case get_event_loop t of
        Inl (RuntimeError _) \<Rightarrow>
          (case body func args kwargs (world s) of
             (Inl err, w') \<Rightarrow> (Inl err, s\<lparr>world := w'\<rparr>)
           | (Inr v, w') \<Rightarrow> (Inr (Direct v), s\<lparr>world := w'\<rparr>))
      | Inl err \<Rightarrow> (Inl err, s)
      | Inr loop \<Rightarrow>
          (let callback = Partial func args kwargs in
           case run_in_executor (executor self) callback s of
             Inl err \<Rightarrow> (Inl err, s)
           | Inr (fut, s') \<Rightarrow> (Inr (Deferred fut), s')))"

text \<open>
  \<^verbatim>\<open>
  def __call__(self, func):
      @wraps(func)
      def wrapper(*args, **kwargs): ...
      assert not inspect.iscoroutinefunction(func), \
          'Cannot wrap coroutine functions to be run in an executor'
      return wrapper
  \<close>
  The \<^verbatim>\<open>assert\<close> statement is executed (the interpreter's default mode).
\<close>

definition ts_call ::
    "switcher \<Rightarrow> 'w callable
      \<Rightarrow> exn + (thread \<Rightarrow> pyval list \<Rightarrow> kwargs \<Rightarrow> 'w system \<Rightarrow> (exn + ret) \<times> 'w system)" where
  "ts_call self func =
     (if iscoroutinefunction func
      then Inl (AssertionError ''Cannot wrap coroutine functions to be run in an executor'')
      else Inr (wrapper self func))"

text \<open>
  \<^verbatim>\<open>
  def threadpool(arg=None):
      if callable(arg):
          return _ThreadSwitcher(None)(arg)
      else:
          return _ThreadSwitcher(arg)
  \<close>
\<close>

datatype 'w threadpool_arg = ArgCallable "'w callable" | ArgValue pyval

datatype 'w threadpool_ret =
    Wrapper "thread \<Rightarrow> pyval list \<Rightarrow> kwargs \<Rightarrow> 'w system \<Rightarrow> (exn + ret) \<times> 'w system"
  | Switcher switcher

definition threadpool :: "'w threadpool_arg \<Rightarrow> exn + 'w threadpool_ret" where
  "threadpool arg =
     (case arg of
        ArgCallable func \<Rightarrow>
          (case ts_call (ts_init VNone) func of
             Inl err \<Rightarrow> Inl err
           | Inr w \<Rightarrow> Inr (Wrapper w))
      | ArgValue ex \<Rightarrow> Inr (Switcher (ts_init ex)))"

section \<open>The direct submit helper: \<^verbatim>\<open>call_in_executor\<close>\<close>

text \<open>
  \<^verbatim>\<open>
  def call_in_executor(func, *args, executor=None, **kwargs):
      callback = partial(func, *args, **kwargs)
      return get_event_loop().run_in_executor(executor, callback)
  \<close>
  The caller passes positional arguments \<open>args\<close> and keyword arguments \<open>kws\<close>. Python
  binds the keyword named \<^verbatim>\<open>executor\<close> to the keyword-only parameter (\<^verbatim>\<open>None\<close> when
  absent) and collects every other keyword in \<^verbatim>\<open>kwargs\<close>.
\<close>

definition call_in_executor ::
    "'w callable \<Rightarrow> pyval list \<Rightarrow> kwargs \<Rightarrow> thread \<Rightarrow> 'w system \<Rightarrow> (exn + nat) \<times> 'w system" where
  "call_in_executor func args kws t s =
     (let executor = (case map_of kws ''executor'' of None \<Rightarrow> VNone | Some v \<Rightarrow> v);
          kwargs = filter (\<lambda>(k, v). k \<noteq> ''executor'') kws;
          callback = Partial func args kwargs
      in case get_event_loop t of
           Inl err \<Rightarrow> (Inl err, s)
         | Inr loop \<Rightarrow>
             (case run_in_executor executor callback s of
                Inl err \<Rightarrow> (Inl err, s)
              | Inr (fut, s') \<Rightarrow> (Inr fut, s')))"

section \<open>The suspension bridge: \<^verbatim>\<open>__aenter__\<close>, \<^verbatim>\<open>__await__\<close>, \<^verbatim>\<open>__aexit__\<close>\<close>

text \<open>
  \<^verbatim>\<open>async with threadpool(): ...\<close> awaits the result of \<^verbatim>\<open>__aenter__\<close>, runs the
  block, and awaits the result of \<^verbatim>\<open>__aexit__\<close>. Both return the switcher itself, so
  both awaits run the generator \<^verbatim>\<open>__await__\<close>.

  The state one handoff touches: the switcher, the \<^verbatim>\<open>Event\<close> of line 39 (\<open>None\<close>
  before it is created, then its flag), the pool that \<^verbatim>\<open>self.executor\<close> names
  (whether it has been shut down, and how many \<^verbatim>\<open>exec_when_ready\<close> tasks it holds
  that no worker has taken yet), the future's \<^verbatim>\<open>_asyncio_future_blocking\<close> flag that
  line 42 sets, and the event loop's queue of ready callbacks, which \<^verbatim>\<open>call_soon\<close>
  appends to. The callbacks are \<^verbatim>\<open>event.set\<close>, the next step of the task that owns
  the continuation (it sends \<^verbatim>\<open>None\<close> into the continuation, or throws the exception
  of the future it waited for), and callbacks of other tasks.

  Lines 36 to 38 do not receive the awaiting coroutine: they search for it,
  \<^verbatim>\<open>
  36  previous_frame = inspect.currentframe().f_back
  37  coro = next(obj for obj in gc.get_referrers(previous_frame.f_code)
  38              if inspect.iscoroutine(obj))
  \<close>
  and take the first coroutine object that refers to the code object of the calling
  frame. Every live coroutine of the same coroutine function refers to that code
  object. \<open>referrers\<close> is the list of the coroutines among the referrers, in the order
  the collector gives them: \<open>Own\<close> is the continuation that runs the
  \<^verbatim>\<open>async with\<close> statement, \<open>Other\<close> any other coroutine. \<open>coro\<close> is the variable of
  line 37, which \<^verbatim>\<open>exec_when_ready\<close> reads. \<open>other_send\<close> says what resuming another
  coroutine with \<^verbatim>\<open>send(None)\<close> does: it runs that coroutine's code from where it
  stands until it yields again (\<open>None\<close>) or raises; it has a switcher of its own and
  does not touch this one.
\<close>

datatype callback = OtherCallback | EventSet | TaskStep "exn option"

datatype coroutine = Own | Other

record bridge =
  ts :: switcher
  referrers :: "coroutine list"
  coro :: "coroutine option"
  other_send :: "exn option"
  event :: "bool option"
  pool_shutdown :: bool
  submitted :: nat
  future_blocking :: bool
  ready :: "callback list"

text \<open>
  \<^verbatim>\<open>
  def __aenter__(self):
      return self

  def __aexit__(self, exc_type, exc_val, exc_tb):
      self.exited = True
      return self
  \<close>
\<close>

definition ts_aenter :: "'a bridge_scheme \<Rightarrow> 'a bridge_scheme" where
  "ts_aenter s = s"

definition ts_aexit :: "'a bridge_scheme \<Rightarrow> 'a bridge_scheme" where
  "ts_aexit s = s\<lparr>ts := (ts s)\<lparr>exited := True\<rparr>\<rparr>"

text \<open>
  The statements of the \<^verbatim>\<open>else\<close> branch of \<^verbatim>\<open>__await__\<close>, one definition each:
  \<^verbatim>\<open>
  37  coro = next(obj for obj in gc.get_referrers(...) if inspect.iscoroutine(obj))
  39  event = Event()
  41  future = loop.run_in_executor(self.executor, exec_when_ready)
  42  next(future.__await__())
  43  loop.call_soon(event.set)
  \<close>
  When no coroutine refers to the code object, \<^verbatim>\<open>next\<close> raises
  \<^verbatim>\<open>StopIteration\<close> inside the generator, which leaves it as a \<^verbatim>\<open>RuntimeError\<close>
  (PEP 479). Line 41 runs on a running loop, which is not closed; it raises
  \<^verbatim>\<open>AttributeError\<close> when \<^verbatim>\<open>self.executor\<close> is neither \<^verbatim>\<open>None\<close> nor an executor,
  and \<^verbatim>\<open>RuntimeError\<close> when the pool has been shut down. \<open>event_set\<close> is
  \<^verbatim>\<open>Event.set\<close>.
\<close>

definition find_coro :: "'a bridge_scheme \<Rightarrow> exn + 'a bridge_scheme" where
  "find_coro s =
     (case referrers s of
        [] \<Rightarrow> Inl (RuntimeError ''generator raised StopIteration'')
      | k # others \<Rightarrow> Inr (s\<lparr>coro := Some k\<rparr>))"

definition new_event :: "'a bridge_scheme \<Rightarrow> 'a bridge_scheme" where
  "new_event s = s\<lparr>event := Some False\<rparr>"

definition is_executor :: "pyval \<Rightarrow> bool" where
  "is_executor v = (case v of VNone \<Rightarrow> True | VExecutor e \<Rightarrow> True | _ \<Rightarrow> False)"

definition submit_exec_when_ready :: "'a bridge_scheme \<Rightarrow> exn + 'a bridge_scheme" where
  "submit_exec_when_ready s =
     (if \<not> is_executor (executor (ts s))
      then Inl (AttributeError ''object has no attribute 'submit' '')
      else if pool_shutdown s
      then Inl (RuntimeError ''cannot schedule new futures after shutdown'')
      else Inr (s\<lparr>submitted := Suc (submitted s)\<rparr>))"

definition mark_awaited :: "'a bridge_scheme \<Rightarrow> 'a bridge_scheme" where
  "mark_awaited s = s\<lparr>future_blocking := True\<rparr>"

definition call_soon :: "callback \<Rightarrow> 'a bridge_scheme \<Rightarrow> 'a bridge_scheme" where
  "call_soon cb s = s\<lparr>ready := ready s @ [cb]\<rparr>"

definition event_set :: "'a bridge_scheme \<Rightarrow> 'a bridge_scheme" where
  "event_set s = s\<lparr>event := map_option (\<lambda>flag. True) (event s)\<rparr>"

text \<open>
  \<^verbatim>\<open>
  def __await__(self):
      if self.exited:
          yield
      else:
          ...lines 36 to 43...
          yield future
  \<close>
  The generator, run on one thread from its start to its return: the values it yields,
  in order, and the state it leaves.
\<close>

datatype yielded = YieldNone | YieldFuture

definition ts_await :: "'a bridge_scheme \<Rightarrow> exn + (yielded list \<times> 'a bridge_scheme)" where
  "ts_await s =
     (if exited (ts s) then Inr ([YieldNone], s)
      else case find_coro s of
             Inl err \<Rightarrow> Inl err
           | Inr s1 \<Rightarrow>
               (case submit_exec_when_ready (new_event s1) of
                  Inl err \<Rightarrow> Inl err
                | Inr s2 \<Rightarrow> Inr ([YieldFuture], call_soon EventSet (mark_awaited s2))))"

subsection \<open>The two threads\<close>

text \<open>
  The event loop's thread and the worker thread each take one step at a time, in any
  order. A configuration is the shared state and where each thread stands.

  The event loop's thread runs the task's step, which runs the continuation into
  \<^verbatim>\<open>__await__\<close> (\<open>S_Line31\<close> to \<open>S_Line44\<close>: the thread is about to execute that line
  of the source). At \<open>S_TaskStep\<close> the yielded value has reached the task's step, which
  has not returned yet: for a future it clears \<^verbatim>\<open>_asyncio_future_blocking\<close> and waits
  for the future; for a bare yield it schedules its own next step. At \<open>S_RunLoop\<close> the
  thread is back in the run loop and takes the oldest ready callback, if there is
  one. At \<open>S_Resumed r\<close> the task's step has resumed the continuation, and at
  \<open>S_Raised err\<close> line 37 or line 41 has raised into it: the continuation goes on
  on the event loop's thread, with no handoff.
\<close>

datatype sched_pc =
    S_Line31 | S_Line33 | S_Line36 | S_Line39 | S_Line41 | S_Line42 | S_Line43 | S_Line44
  | S_Raised exn
  | S_TaskStep yielded
  | S_RunLoop
  | S_Resumed "exn option"

text \<open>
  \<^verbatim>\<open>
  def exec_when_ready():
      event.wait()                                                   # line 25
      coro.send(None)                                                # line 26
      if not self.exited:                                            # line 28
          raise RuntimeError('attempted to "await" in a worker thread')
  \<close>
  The worker takes the task from the executor (\<open>W_Idle\<close>), blocks in \<^verbatim>\<open>event.wait()\<close>
  until the flag is set (\<open>W_Line25\<close>) and resumes the coroutine that \<^verbatim>\<open>coro\<close> holds
  (\<open>W_Line26\<close>). When that is the continuation of this handoff, it returns from
  \<^verbatim>\<open>__await__\<close> and runs the block (\<open>W_Body\<close>). The block either runs to its end,
  normally or by an exception, so that \<^verbatim>\<open>__aexit__\<close> and the second \<^verbatim>\<open>__await__\<close>
  run (\<open>W_Exit\<close>), or awaits something itself, which yields out of \<^verbatim>\<open>coro.send\<close>
  at once. When \<^verbatim>\<open>coro\<close> holds another coroutine, the worker runs that coroutine's
  code from where it stands (\<open>W_Other\<close>), until it yields or raises out of
  \<^verbatim>\<open>coro.send\<close>. At \<open>W_Return r\<close> the task has returned (\<open>None\<close>) or raised, and the
  executor hands the outcome to the loop, which schedules the next step of the waiting
  task.
\<close>

datatype block = Completes | Awaits

datatype worker_pc =
    W_Idle | W_Line25 | W_Line26 | W_Body | W_Exit | W_Other | W_Line28
  | W_Return "exn option"
  | W_Finished

record config = bridge +
  sched :: sched_pc
  worker :: worker_pc

definition scheduler_step :: "config \<Rightarrow> config option" where
  "scheduler_step c =
     (case sched c of
        S_Line31 \<Rightarrow> Some (c\<lparr>sched := (if exited (ts c) then S_Line33 else S_Line36)\<rparr>)
      | S_Line33 \<Rightarrow> Some (c\<lparr>sched := S_TaskStep YieldNone\<rparr>)
      | S_Line36 \<Rightarrow>
          (case find_coro c of
             Inl err \<Rightarrow> Some (c\<lparr>sched := S_Raised err\<rparr>)
           | Inr c' \<Rightarrow> Some (c'\<lparr>sched := S_Line39\<rparr>))
      | S_Line39 \<Rightarrow> Some ((new_event c)\<lparr>sched := S_Line41\<rparr>)
      | S_Line41 \<Rightarrow>
          (case submit_exec_when_ready c of
             Inl err \<Rightarrow> Some (c\<lparr>sched := S_Raised err\<rparr>)
           | Inr c' \<Rightarrow> Some (c'\<lparr>sched := S_Line42\<rparr>))
      | S_Line42 \<Rightarrow> Some ((mark_awaited c)\<lparr>sched := S_Line43\<rparr>)
      | S_Line43 \<Rightarrow> Some ((call_soon EventSet c)\<lparr>sched := S_Line44\<rparr>)
      | S_Line44 \<Rightarrow> Some (c\<lparr>sched := S_TaskStep YieldFuture\<rparr>)
      | S_Raised err \<Rightarrow> None
      | S_TaskStep YieldFuture \<Rightarrow> Some (c\<lparr>future_blocking := False, sched := S_RunLoop\<rparr>)
      | S_TaskStep YieldNone \<Rightarrow> Some ((call_soon (TaskStep None) c)\<lparr>sched := S_RunLoop\<rparr>)
      | S_RunLoop \<Rightarrow>
          (case ready c of
             [] \<Rightarrow> None
           | OtherCallback # rest \<Rightarrow> Some (c\<lparr>ready := rest\<rparr>)
           | EventSet # rest \<Rightarrow> Some (event_set (c\<lparr>ready := rest\<rparr>))
           | TaskStep r # rest \<Rightarrow> Some (c\<lparr>ready := rest, sched := S_Resumed r\<rparr>))
      | S_Resumed r \<Rightarrow> None)"

definition worker_step :: "block \<Rightarrow> config \<Rightarrow> config option" where
  \<open>worker_step b c =
     (case worker c of
        W_Idle \<Rightarrow>
          (if submitted c = 0 then None
           else Some (c\<lparr>submitted := submitted c - 1, worker := W_Line25\<rparr>))
      | W_Line25 \<Rightarrow> (if event c = Some True then Some (c\<lparr>worker := W_Line26\<rparr>) else None)
      | W_Line26 \<Rightarrow>
          (case coro c of
             None \<Rightarrow>
               Some (c\<lparr>worker := W_Return (Some (NameError
                  ''free variable 'coro' referenced before assignment in enclosing scope''))\<rparr>)
           | Some Own \<Rightarrow> Some (c\<lparr>worker := W_Body\<rparr>)
           | Some Other \<Rightarrow> Some (c\<lparr>worker := W_Other\<rparr>))
      | W_Body \<Rightarrow>
          (case b of
             Completes \<Rightarrow> Some (c\<lparr>worker := W_Exit\<rparr>)
           | Awaits \<Rightarrow> Some (c\<lparr>worker := W_Line28\<rparr>))
      | W_Exit \<Rightarrow>
          (case ts_await (ts_aexit c) of
             Inl err \<Rightarrow> Some (c\<lparr>worker := W_Return (Some err)\<rparr>)
           | Inr (ys, c') \<Rightarrow> Some (c'\<lparr>worker := W_Line28\<rparr>))
      | W_Other \<Rightarrow>
          (case other_send c of
             None \<Rightarrow> Some (c\<lparr>worker := W_Line28\<rparr>)
           | Some err \<Rightarrow> Some (c\<lparr>worker := W_Return (Some err)\<rparr>))
      | W_Line28 \<Rightarrow>
          (if \<not> exited (ts c)
           then Some (c\<lparr>worker :=
                  W_Return (Some (RuntimeError ''attempted to "await" in a worker thread''))\<rparr>)
           else Some (c\<lparr>worker := W_Return None\<rparr>))
      | W_Return r \<Rightarrow> Some ((call_soon (TaskStep r) c)\<lparr>worker := W_Finished\<rparr>)
      | W_Finished \<Rightarrow> None)\<close>

text \<open>
  A schedule says which thread moves next. \<open>trace\<close> is the run of a schedule: every
  configuration passed, the first one included, or \<open>None\<close> when the schedule asks a
  thread to move that cannot (it is blocked or has finished).
\<close>

datatype move = Sched | Work

definition step :: "block \<Rightarrow> move \<Rightarrow> config \<Rightarrow> config option" where
  "step b m c = (case m of Sched \<Rightarrow> scheduler_step c | Work \<Rightarrow> worker_step b c)"

fun trace :: "block \<Rightarrow> move list \<Rightarrow> config \<Rightarrow> config list option" where
  "trace b [] c = Some [c]"
| "trace b (m # ms) c =
     (case step b m c of
        None \<Rightarrow> None
      | Some c' \<Rightarrow> map_option ((#) c) (trace b ms c'))"

text \<open>
  A handoff starts with a new switcher (\<^verbatim>\<open>__init__\<close> sets \<^verbatim>\<open>exited\<close> to false), no
  event, nothing submitted, \<open>n\<close> callbacks of other tasks ready, the event loop's thread
  entering \<^verbatim>\<open>__await__\<close> from \<^verbatim>\<open>__aenter__\<close>, and the worker idle. \<open>refs\<close> are
  the coroutines that refer to the code object, and \<open>oth\<close> says what resuming another
  coroutine does.
\<close>

definition initial :: "pyval \<Rightarrow> bool \<Rightarrow> nat \<Rightarrow> coroutine list \<Rightarrow> exn option \<Rightarrow> config" where
  "initial ex shut n refs oth =
     \<lparr>ts = ts_init ex, referrers = refs, coro = None, other_send = oth, event = None,
      pool_shutdown = shut, submitted = 0, future_blocking = False,
      ready = replicate n OtherCallback, sched = S_Line31, worker = W_Idle\<rparr>"

subsection \<open>What the claims speak of\<close>

text \<open>
  \<open>signals\<close> counts the steps of a run at which the event goes from reset to set.
  The event loop's thread executes the continuation's code unless it is in the task's
  step after a yield or in the run loop. \<open>worker_runs\<close> is the coroutine whose code the
  worker executes, between \<^verbatim>\<open>coro.send\<close> and the yield that leaves it; the worker
  is in the continuation when that is the continuation of this handoff. The
  continuation is parked when the event loop's thread is back in the run loop and the
  task has taken note of the future.
\<close>

fun signals :: "config list \<Rightarrow> nat" where
  "signals (c # c' # cs) =
     (if event c = Some False \<and> event c' = Some True then 1 else 0) + signals (c' # cs)"
| "signals cs = 0"

definition scheduler_in_continuation :: "config \<Rightarrow> bool" where
  "scheduler_in_continuation c =
     (case sched c of S_TaskStep y \<Rightarrow> False | S_RunLoop \<Rightarrow> False | _ \<Rightarrow> True)"

definition worker_runs :: "config \<Rightarrow> coroutine option" where
  "worker_runs c =
     (case worker c of
        W_Body \<Rightarrow> Some Own | W_Exit \<Rightarrow> Some Own | W_Other \<Rightarrow> Some Other | _ \<Rightarrow> None)"

definition worker_in_continuation :: "config \<Rightarrow> bool" where
  "worker_in_continuation c = (worker c = W_Body \<or> worker c = W_Exit)"

definition worker_resumed :: "config \<Rightarrow> bool" where
  "worker_resumed c =
     (case worker c of W_Idle \<Rightarrow> False | W_Line25 \<Rightarrow> False | W_Line26 \<Rightarrow> False | _ \<Rightarrow> True)"

definition parked :: "config \<Rightarrow> bool" where
  "parked c = (sched c = S_RunLoop \<and> \<not> future_blocking c)"

subsection \<open>The invariant of a handoff\<close>

text \<open>
  What holds of every configuration a handoff reaches, by the place of the event loop's
  thread: which callbacks are ready, whether the event is set, and how far the worker
  can have come.
\<close>

definition outcome :: "block \<Rightarrow> config \<Rightarrow> exn option" where
  \<open>outcome b c =
     (case coro c of
        None \<Rightarrow>
          Some (NameError
            ''free variable 'coro' referenced before assignment in enclosing scope'')
      | Some Own \<Rightarrow>
          (case b of
             Completes \<Rightarrow> None
           | Awaits \<Rightarrow> Some (RuntimeError ''attempted to "await" in a worker thread''))
      | Some Other \<Rightarrow>
          (case other_send c of
             None \<Rightarrow> Some (RuntimeError ''attempted to "await" in a worker thread'')
           | Some err \<Rightarrow> Some err))\<close>

definition wakeups :: "callback list \<Rightarrow> callback list" where
  "wakeups rq = filter (\<lambda>cb. case cb of TaskStep r \<Rightarrow> True | _ \<Rightarrow> False) rq"

definition pending :: "config \<Rightarrow> nat \<Rightarrow> bool" where
  "pending c k \<longleftrightarrow>
     count_list (ready c) EventSet = k \<and> wakeups (ready c) = [] \<and> \<not> exited (ts c)"

definition queued :: "config \<Rightarrow> bool" where
  "queued c \<longleftrightarrow>
     (worker c = W_Idle \<and> submitted c = 1) \<or> (worker c = W_Line25 \<and> submitted c = 0)"

definition found :: "config \<Rightarrow> bool" where
  "found c \<longleftrightarrow> referrers c \<noteq> [] \<and> coro c = Some (hd (referrers c))"

definition worker_inv :: "block \<Rightarrow> config \<Rightarrow> bool" where
  "worker_inv b c =
     (case worker c of
        W_Idle \<Rightarrow> submitted c = 1 \<and> wakeups (ready c) = [] \<and> \<not> exited (ts c)
      | W_Line25 \<Rightarrow> submitted c = 0 \<and> wakeups (ready c) = [] \<and> \<not> exited (ts c)
      | W_Line26 \<Rightarrow> submitted c = 0 \<and> wakeups (ready c) = [] \<and> \<not> exited (ts c)
      | W_Body \<Rightarrow>
          submitted c = 0 \<and> wakeups (ready c) = [] \<and> \<not> exited (ts c) \<and> coro c = Some Own
      | W_Exit \<Rightarrow>
          submitted c = 0 \<and> wakeups (ready c) = [] \<and> \<not> exited (ts c) \<and> coro c = Some Own
          \<and> b = Completes
      | W_Other \<Rightarrow>
          submitted c = 0 \<and> wakeups (ready c) = [] \<and> \<not> exited (ts c) \<and> coro c = Some Other
      | W_Line28 \<Rightarrow>
          submitted c = 0 \<and> wakeups (ready c) = []
          \<and> (exited (ts c) \<longleftrightarrow> coro c = Some Own \<and> b = Completes)
          \<and> (coro c = Some Other \<longrightarrow> other_send c = None)
      | W_Return r \<Rightarrow>
          submitted c = 0 \<and> wakeups (ready c) = [] \<and> r = outcome b c
          \<and> (exited (ts c) \<longleftrightarrow> coro c = Some Own \<and> b = Completes)
      | W_Finished \<Rightarrow>
          submitted c = 0 \<and> wakeups (ready c) = [TaskStep (outcome b c)]
          \<and> (exited (ts c) \<longleftrightarrow> coro c = Some Own \<and> b = Completes))"

definition handoff_inv :: "block \<Rightarrow> config \<Rightarrow> bool" where
  "handoff_inv b c =
     (case sched c of
        S_Line31 \<Rightarrow>
          event c = None \<and> submitted c = 0 \<and> worker c = W_Idle \<and> pending c 0
          \<and> \<not> future_blocking c
      | S_Line33 \<Rightarrow> False
      | S_Line36 \<Rightarrow>
          event c = None \<and> submitted c = 0 \<and> worker c = W_Idle \<and> pending c 0
          \<and> \<not> future_blocking c
      | S_Line39 \<Rightarrow>
          event c = None \<and> submitted c = 0 \<and> worker c = W_Idle \<and> pending c 0
          \<and> \<not> future_blocking c \<and> found c
      | S_Line41 \<Rightarrow>
          event c = Some False \<and> submitted c = 0 \<and> worker c = W_Idle \<and> pending c 0
          \<and> \<not> future_blocking c \<and> found c
      | S_Line42 \<Rightarrow>
          event c = Some False \<and> queued c \<and> pending c 0 \<and> \<not> future_blocking c \<and> found c
      | S_Line43 \<Rightarrow>
          event c = Some False \<and> queued c \<and> pending c 0 \<and> future_blocking c \<and> found c
      | S_Line44 \<Rightarrow>
          event c = Some False \<and> queued c \<and> pending c 1 \<and> future_blocking c \<and> found c
      | S_Raised err \<Rightarrow>
          event c \<noteq> Some True \<and> submitted c = 0 \<and> worker c = W_Idle \<and> pending c 0
          \<and> \<not> future_blocking c
          \<and> (referrers c = [] \<or> \<not> is_executor (executor (ts c)) \<or> pool_shutdown c)
      | S_TaskStep y \<Rightarrow>
          y = YieldFuture \<and> event c = Some False \<and> queued c \<and> pending c 1
          \<and> future_blocking c \<and> found c
      | S_RunLoop \<Rightarrow>
          \<not> future_blocking c \<and> found c
          \<and> ((event c = Some False \<and> queued c \<and> pending c 1)
               \<or> (event c = Some True \<and> count_list (ready c) EventSet = 0 \<and> worker_inv b c))
      | S_Resumed r \<Rightarrow>
          \<not> future_blocking c \<and> found c
          \<and> event c = Some True \<and> count_list (ready c) EventSet = 0 \<and> worker c = W_Finished
          \<and> submitted c = 0 \<and> wakeups (ready c) = [] \<and> r = outcome b c
          \<and> (exited (ts c) \<longleftrightarrow> coro c = Some Own \<and> b = Completes))"

subsection \<open>A measure of progress\<close>

text \<open>
  Every step of either thread lowers the weight of the configuration: each thread only
  moves forward through its code, and a callback is taken from the ready queue once.
\<close>

definition sched_rank :: "sched_pc \<Rightarrow> nat" where
  "sched_rank p =
     (case p of
        S_Line31 \<Rightarrow> 10 | S_Line33 \<Rightarrow> 9 | S_Line36 \<Rightarrow> 9 | S_Line39 \<Rightarrow> 8 | S_Line41 \<Rightarrow> 7
      | S_Line42 \<Rightarrow> 6 | S_Line43 \<Rightarrow> 5 | S_Line44 \<Rightarrow> 4 | S_TaskStep y \<Rightarrow> 3 | S_RunLoop \<Rightarrow> 2
      | S_Resumed r \<Rightarrow> 1 | S_Raised err \<Rightarrow> 0)"

definition worker_rank :: "worker_pc \<Rightarrow> nat" where
  "worker_rank p =
     (case p of
        W_Idle \<Rightarrow> 7 | W_Line25 \<Rightarrow> 6 | W_Line26 \<Rightarrow> 5 | W_Body \<Rightarrow> 4 | W_Exit \<Rightarrow> 3
      | W_Other \<Rightarrow> 3 | W_Line28 \<Rightarrow> 2 | W_Return r \<Rightarrow> 1 | W_Finished \<Rightarrow> 0)"

definition weight :: "config \<Rightarrow> nat" where
  "weight c = 2 * sched_rank (sched c) + 2 * worker_rank (worker c) + length (ready c)"

section \<open>Example inputs\<close>

text \<open>
  Callables and systems on which the theorems below are evaluated. The world of these
  examples counts the calls made so far.
\<close>

definition divide :: "nat callable" where
  "divide = \<lparr>iscoroutinefunction = False,
     body = (\<lambda>args kwargs w.
       (case args of
          [VInt a, VInt b] \<Rightarrow>
            if b = 0 then Inl (ZeroDivisionError ''division by zero'') else Inr (VInt (a div b))
        | _ \<Rightarrow> Inl (TypeError ''divide() takes two integers''), Suc w))\<rparr>"

definition fetch :: "nat callable" where
  "fetch = \<lparr>iscoroutinefunction = True, body = (\<lambda>args kwargs w. (Inr VNone, w))\<rparr>"


definition idle :: "nat system" where
  "idle = \<lparr>world = 0, loop_closed = False, default_executor = 0,
            pools = (\<lambda>e. \<lparr>is_shutdown = False, work_queue = []\<rparr>), futures = []\<rparr>"

definition stopped :: "nat system" where
  "stopped = \<lparr>world = 0, loop_closed = False, default_executor = 0,
            pools = (\<lambda>e. \<lparr>is_shutdown = True, work_queue = []\<rparr>), futures = []\<rparr>"

text \<open>
  A bridge nobody has used, a schedule of a whole handoff whose block runs to its end,
  and a schedule that takes the worker into a block that awaits.
\<close>

definition fresh_bridge :: bridge where
  "fresh_bridge =
     \<lparr>ts = ts_init VNone, referrers = [Own], coro = None, other_send = None, event = None,
      pool_shutdown = False, submitted = 0, future_blocking = False, ready = []\<rparr>"

definition await_schedule :: "move list" where
  "await_schedule =
     [Sched, Sched, Sched, Sched, Work, Sched, Sched, Sched, Sched, Sched, Sched, Work, Work]"

definition handoff_schedule :: "move list" where
  "handoff_schedule =
     [Sched, Sched, Sched, Sched, Work, Sched, Sched, Sched, Sched, Sched, Sched,
      Work, Work, Work, Work, Work, Work, Sched]"

text \<open>
  Two coroutines of one coroutine function are alive, as when two tasks run the same
  request handler, and the collector lists the other one first. The schedule is that
  of a whole handoff; the other coroutine, once resumed, yields again.
\<close>

definition two_coroutines :: config where
  "two_coroutines = initial VNone False 1 [Other, Own] None"

definition other_schedule :: "move list" where
  "other_schedule =
     [Sched, Sched, Sched, Sched, Work, Sched, Sched, Sched, Sched, Sched, Sched,
      Work, Work, Work, Work, Work, Sched]"

section \<open>Properties of the dispatch wrapper and of the direct submit helper\<close>

lemma get_event_loop_simps [simp]:
  "get_event_loop EventLoopThread = Inr ()"
  "get_event_loop OtherThread = Inl (RuntimeError ''There is no current event loop in thread'')"
  by (simp_all add: get_event_loop_def)

lemma get_event_loop_fails: "get_event_loop t = Inl err \<Longrightarrow> t = OtherThread"
  by (cases t) simp_all

lemma get_event_loop_ok: "get_event_loop t = Inr u \<Longrightarrow> t = EventLoopThread"
  by (cases t) simp_all

lemma executor_of_simps [simp]:
  "executor_of VNone s = Inr (default_executor s)"
  "executor_of (VExecutor e) s = Inr e"
  by (simp_all add: executor_of_def)

lemma run_in_executor_ok:
  assumes "\<not> loop_closed s" "executor_of ex s = Inr e" "\<not> is_shutdown (pools s e)"
  shows "run_in_executor ex task s =
           Inr (length (futures s),
                s\<lparr>pools := (pools s)
                     (e := (pools s e)\<lparr>work_queue := work_queue (pools s e) @ [(length (futures s), task)]\<rparr>),
                  futures := futures s @ [None]\<rparr>)"
  using assms by (simp add: run_in_executor_def submit_def Let_def)

lemma world_run_tasks_append:
  "run_tasks (tasks @ [t]) s = run_task t (run_tasks tasks s)"
  by (induction tasks arbitrary: s) simp_all

lemma length_futures_run_task [simp]: "length (futures (run_task t s)) = length (futures s)"
  by (simp add: run_task_def split: prod.splits)

lemma length_futures_run_tasks [simp]: "length (futures (run_tasks tasks s)) = length (futures s)"
  by (induction tasks arbitrary: s) simp_all

text \<open>The tasks read and write the world and the futures only.\<close>

lemma run_tasks_world_cong:
  "world s = world s' \<Longrightarrow> world (run_tasks tasks s) = world (run_tasks tasks s')"
proof (induction tasks arbitrary: s s')
  case Nil then show ?case by simp
next
  case (Cons t tasks)
  have "world (run_task t s) = world (run_task t s')"
    using Cons.prems by (simp add: run_task_def split: prod.splits)
  then have "world (run_tasks tasks (run_task t s)) = world (run_tasks tasks (run_task t s'))"
    by (rule Cons.IH)
  then show ?case by simp
qed

lemma world_worker_drain_after_submit:
  assumes "\<not> loop_closed s" "executor_of ex s = Inr e" "\<not> is_shutdown (pools s e)"
    and "run_in_executor ex (Partial func args kwargs) s = Inr (fut, s')"
  shows "futures (worker_drain e s') ! fut = Some (fst (body func args kwargs (world (worker_drain e s))))"
proof -
  let ?q = "work_queue (pools s e)"
  let ?s0 = "s\<lparr>pools := (pools s)(e := (pools s e)\<lparr>work_queue := []\<rparr>)\<rparr>"
  let ?s0' = "s'\<lparr>pools := (pools s')(e := (pools s' e)\<lparr>work_queue := []\<rparr>)\<rparr>"
  have eq: "Inr (fut, s') = Inr (length (futures s),
                s\<lparr>pools := (pools s)(e := (pools s e)\<lparr>work_queue := ?q @ [(length (futures s), Partial func args kwargs)]\<rparr>),
                  futures := futures s @ [None]\<rparr>)"
    using run_in_executor_ok [OF assms(1-3), of "Partial func args kwargs"] assms(4) by simp
  have fut: "fut = length (futures s)" using eq by simp
  have s': "s' = s\<lparr>pools := (pools s)(e := (pools s e)\<lparr>work_queue := ?q @ [(fut, Partial func args kwargs)]\<rparr>),
                  futures := futures s @ [None]\<rparr>"
    using eq by simp
  have q': "work_queue (pools s' e) = ?q @ [(fut, Partial func args kwargs)]"
    by (simp add: s')
  have w: "world (run_tasks ?q ?s0') = world (run_tasks ?q ?s0)"
    by (rule run_tasks_world_cong) (simp add: s')
  have len: "fut < length (futures (run_tasks ?q ?s0'))"
    by (simp add: s' fut)
  have "worker_drain e s' = run_task (fut, Partial func args kwargs) (run_tasks ?q ?s0')"
    by (simp add: worker_drain_def q' world_run_tasks_append)
  then show ?thesis
    using len w by (simp add: run_task_def worker_drain_def split: prod.splits)
qed

lemma run_in_executor_shutdown:
  assumes "\<not> loop_closed s" "executor_of ex s = Inr e" "is_shutdown (pools s e)"
  shows "run_in_executor ex task s = Inl (RuntimeError ''cannot schedule new futures after shutdown'')"
  using assms by (simp add: run_in_executor_def submit_def)

lemma call_in_executor_on_loop:
  "call_in_executor func args kws EventLoopThread s =
     (case run_in_executor (case map_of kws ''executor'' of None \<Rightarrow> VNone | Some v \<Rightarrow> v)
             (Partial func args (filter (\<lambda>(k, v). k \<noteq> ''executor'') kws)) s of
        Inl err \<Rightarrow> (Inl err, s)
      | Inr (fut, s') \<Rightarrow> (Inr fut, s'))"
  by (simp add: call_in_executor_def Let_def)


text \<open>
  Claim C3. On a thread where obtaining the event loop fails, a call of the wrapper runs
  the callable in place, on the caller's thread: the callable's value is returned as it
  is (and its exception is raised as it is), no future is created and no executor
  receives a task.
\<close>

theorem wrapper_without_loop_runs_in_place:
  assumes "get_event_loop t = Inl err"
  shows "wrapper self func t args kwargs s =
           (case body func args kwargs (world s) of
              (Inl e, w') \<Rightarrow> (Inl e, s\<lparr>world := w'\<rparr>)
            | (Inr v, w') \<Rightarrow> (Inr (Direct v), s\<lparr>world := w'\<rparr>))
         \<and> pools (snd (wrapper self func t args kwargs s)) = pools s
         \<and> futures (snd (wrapper self func t args kwargs s)) = futures s
         \<and> fst (wrapper self func t args kwargs s) \<noteq> Inr (Deferred fut)"
  using get_event_loop_fails [OF assms]
  by (auto simp: wrapper_def split: prod.splits sum.splits)

theorem wrapper_without_loop_witness:
  "get_event_loop OtherThread = Inl (RuntimeError ''There is no current event loop in thread'')
   \<and> wrapper (ts_init VNone) divide OtherThread [VInt 7, VInt 2] [] idle
       = (Inr (Direct (VInt 3)), idle\<lparr>world := 1\<rparr>)"
  using wrapper_without_loop_runs_in_place
    [of OtherThread "RuntimeError ''There is no current event loop in thread''"
        "ts_init VNone" divide "[VInt 7, VInt 2]" "[]" idle]
  by (simp add: divide_def idle_def)

text \<open>
  Claim C4. On the event loop's thread, with an open loop and a running executor, a
  call of the wrapper queues the callable bound to its positional and keyword
  arguments in the executor and returns the new, pending future; the callable has not
  run (the world is unchanged). Once the worker has run the queue, the future holds
  what the call of the callable returns in the world the worker runs it in, which is
  what the call of the wrapper on a thread without an event loop returns there.
\<close>

theorem wrapper_on_loop_thread_defers:
  assumes "get_event_loop t = Inr loop" and "\<not> loop_closed s"
    and "executor_of (executor self) s = Inr e" and "\<not> is_shutdown (pools s e)"
  shows "\<exists>s'. wrapper self func t args kwargs s = (Inr (Deferred (length (futures s))), s')
           \<and> world s' = world s
           \<and> futures s' = futures s @ [None]
           \<and> work_queue (pools s' e) =
               work_queue (pools s e) @ [(length (futures s), Partial func args kwargs)]
           \<and> futures (worker_drain e s') ! length (futures s) =
               Some (fst (body func args kwargs (world (worker_drain e s))))
           \<and> map_sum id Direct (the (futures (worker_drain e s') ! length (futures s))) =
               fst (wrapper self func OtherThread args kwargs (worker_drain e s))"
proof -
  let ?cb = "Partial func args kwargs"
  obtain s' where r: "run_in_executor (executor self) ?cb s = Inr (length (futures s), s')"
    and s': "s' = s\<lparr>pools := (pools s)
                      (e := (pools s e)\<lparr>work_queue :=
                              work_queue (pools s e) @ [(length (futures s), ?cb)]\<rparr>),
                    futures := futures s @ [None]\<rparr>"
    using run_in_executor_ok [OF assms(2-4)] by simp
  have w: "wrapper self func t args kwargs s = (Inr (Deferred (length (futures s))), s')"
    using get_event_loop_ok [OF assms(1)] r by (simp add: wrapper_def)
  have d: "futures (worker_drain e s') ! length (futures s) =
               Some (fst (body func args kwargs (world (worker_drain e s))))"
    by (rule world_worker_drain_after_submit [OF assms(2-4) r])
  have "fst (wrapper self func OtherThread args kwargs (worker_drain e s)) =
          map_sum id Direct (fst (body func args kwargs (world (worker_drain e s))))"
    by (simp add: wrapper_def split: prod.splits sum.splits)
  then have "map_sum id Direct (the (futures (worker_drain e s') ! length (futures s))) =
               fst (wrapper self func OtherThread args kwargs (worker_drain e s))"
    using d by simp
  then show ?thesis using w d by (auto simp: s')
qed

theorem wrapper_on_loop_thread_witness:
  "get_event_loop EventLoopThread = Inr ()
   \<and> \<not> loop_closed idle
   \<and> executor_of (executor (ts_init VNone)) idle = Inr 0
   \<and> \<not> is_shutdown (pools idle 0)
   \<and> fst (wrapper (ts_init VNone) divide EventLoopThread [VInt 7, VInt 2] [] idle) = Inr (Deferred 0)
   \<and> world (snd (wrapper (ts_init VNone) divide EventLoopThread [VInt 7, VInt 2] [] idle)) = 0
   \<and> futures (worker_drain 0 (snd (wrapper (ts_init VNone) divide EventLoopThread [VInt 7, VInt 2] [] idle))) ! 0
       = Some (Inr (VInt 3))"
  using wrapper_on_loop_thread_defers
    [of EventLoopThread "()" idle "ts_init VNone" 0 divide "[VInt 7, VInt 2]" "[]"]
  by (auto simp: divide_def idle_def ts_init_def worker_drain_def)

text \<open>
  Claim C5. Wrapping a coroutine function fails at once with an
  \<^verbatim>\<open>AssertionError\<close>, through \<^verbatim>\<open>_ThreadSwitcher.__call__\<close> and through
  \<^verbatim>\<open>threadpool\<close> used as a plain decorator: no wrapper is returned, so no call of
  one can be attempted.
\<close>

theorem wrapping_coroutine_function_fails:
  assumes "iscoroutinefunction func"
  shows "ts_call self func =
           Inl (AssertionError ''Cannot wrap coroutine functions to be run in an executor'')
         \<and> threadpool (ArgCallable func) =
           Inl (AssertionError ''Cannot wrap coroutine functions to be run in an executor'')"
  using assms by (simp add: ts_call_def threadpool_def)

theorem wrapping_coroutine_function_witness:
  "iscoroutinefunction fetch
   \<and> ts_call (ts_init (VExecutor 1)) fetch =
       Inl (AssertionError ''Cannot wrap coroutine functions to be run in an executor'')
   \<and> threadpool (ArgCallable fetch) =
       Inl (AssertionError ''Cannot wrap coroutine functions to be run in an executor'')"
  using wrapping_coroutine_function_fails [of fetch "ts_init (VExecutor 1)"]
  by (simp add: fetch_def)




text \<open>
  Claim C9, as amended. When the executor has been shut down, the submission fails
  inside the call: the wrapper and \<^verbatim>\<open>call_in_executor\<close> raise the executor's
  \<^verbatim>\<open>RuntimeError\<close> to their caller. No future is returned or created, nothing is
  queued and the callable does not run: the system is unchanged.
\<close>

theorem submit_failure_is_raised:
  assumes "get_event_loop t = Inr loop" and "\<not> loop_closed s"
    and "executor_of (executor self) s = Inr e"
    and "executor_of (case map_of kws ''executor'' of None \<Rightarrow> VNone | Some v \<Rightarrow> v) s = Inr e"
    and "is_shutdown (pools s e)"
  shows "wrapper self func t args kwargs s =
           (Inl (RuntimeError ''cannot schedule new futures after shutdown''), s)
         \<and> call_in_executor func args kws t s =
           (Inl (RuntimeError ''cannot schedule new futures after shutdown''), s)"
  using get_event_loop_ok [OF assms(1)]
    run_in_executor_shutdown [OF assms(2,3,5)] run_in_executor_shutdown [OF assms(2,4,5)]
  by (simp add: wrapper_def call_in_executor_on_loop)

theorem submit_failure_witness:
  "get_event_loop EventLoopThread = Inr ()
   \<and> \<not> loop_closed stopped
   \<and> executor_of (executor (ts_init (VExecutor 2))) stopped = Inr 2
   \<and> executor_of (case map_of [(''executor'', VExecutor 2)] ''executor'' of None \<Rightarrow> VNone | Some v \<Rightarrow> v) stopped = Inr 2
   \<and> is_shutdown (pools stopped 2)
   \<and> wrapper (ts_init (VExecutor 2)) divide EventLoopThread [VInt 7, VInt 2] [] stopped =
        (Inl (RuntimeError ''cannot schedule new futures after shutdown''), stopped)
   \<and> call_in_executor divide [VInt 7, VInt 2] [(''executor'', VExecutor 2)] EventLoopThread stopped =
        (Inl (RuntimeError ''cannot schedule new futures after shutdown''), stopped)"
  using submit_failure_is_raised
    [of EventLoopThread "()" stopped "ts_init (VExecutor 2)" 2 "[(''executor'', VExecutor 2)]"
        divide "[VInt 7, VInt 2]" "[]"]
  by (simp add: stopped_def ts_init_def)

text \<open>
  The claim as stated fails: with the default executor shut down, the call on the event
  loop's thread raises, and no future exists that could carry the failure.
\<close>

theorem submit_failure_counterexample:
  "fst (wrapper (ts_init VNone) divide EventLoopThread [VInt 7, VInt 2] [] stopped) =
     Inl (RuntimeError ''cannot schedule new futures after shutdown'')
   \<and> fst (wrapper (ts_init VNone) divide EventLoopThread [VInt 7, VInt 2] [] stopped) \<noteq>
     Inr (Deferred 0)
   \<and> futures (snd (wrapper (ts_init VNone) divide EventLoopThread [VInt 7, VInt 2] [] stopped)) = []
   \<and> fst (call_in_executor divide [VInt 7, VInt 2] [] EventLoopThread stopped) =
     Inl (RuntimeError ''cannot schedule new futures after shutdown'')
   \<and> futures (snd (call_in_executor divide [VInt 7, VInt 2] [] EventLoopThread stopped)) = []"
  by (simp add: wrapper_def call_in_executor_def run_in_executor_def submit_def
        stopped_def ts_init_def)



section \<open>Properties of the suspension bridge\<close>

subsection \<open>The invariant holds of every configuration reached\<close>

lemma wakeups_simps [simp]:
  "wakeups [] = []"
  "wakeups (OtherCallback # rq) = wakeups rq"
  "wakeups (EventSet # rq) = wakeups rq"
  "wakeups (TaskStep r # rq) = TaskStep r # wakeups rq"
  "wakeups (rq @ rq') = wakeups rq @ wakeups rq'"
  by (simp_all add: wakeups_def)

lemma outcome_update [simp]:
  "outcome b (c\<lparr>ready := rq\<rparr>) = outcome b c"
  "outcome b (c\<lparr>sched := p\<rparr>) = outcome b c"
  "outcome b (c\<lparr>worker := q\<rparr>) = outcome b c"
  "outcome b (c\<lparr>event := e\<rparr>) = outcome b c"
  "outcome b (c\<lparr>future_blocking := f\<rparr>) = outcome b c"
  "outcome b (c\<lparr>submitted := k\<rparr>) = outcome b c"
  "outcome b (c\<lparr>ts := sw\<rparr>) = outcome b c"
  by (simp_all add: outcome_def split: option.splits coroutine.splits)

lemma inv_initial: "handoff_inv b (initial ex shut n refs oth)"
  by (simp add: handoff_inv_def initial_def pending_def ts_init_def wakeups_def)

lemma inv_scheduler_step:
  assumes "handoff_inv b c" and "scheduler_step c = Some c'"
  shows "handoff_inv b c'"
proof (cases "sched c")
  case S_RunLoop
  show ?thesis
  proof (cases "ready c")
    case Nil
    with S_RunLoop assms show ?thesis by (simp add: scheduler_step_def)
  next
    case (Cons cb rest)
    with S_RunLoop assms show ?thesis
      by (cases cb)
        (auto simp: scheduler_step_def handoff_inv_def pending_def queued_def worker_inv_def
              event_set_def found_def split: worker_pc.splits if_splits)
  qed
next
  case (S_TaskStep y)
  with assms show ?thesis
    by (auto simp: scheduler_step_def handoff_inv_def pending_def queued_def call_soon_def
          found_def)
next
  case S_Line36
  with assms show ?thesis
    by (cases "referrers c")
      (auto simp: scheduler_step_def handoff_inv_def pending_def find_coro_def found_def)
next
  case S_Line41
  with assms show ?thesis
    by (auto simp: scheduler_step_def handoff_inv_def pending_def queued_def found_def
          submit_exec_when_ready_def split: if_splits)
qed (use assms in \<open>auto simp: scheduler_step_def handoff_inv_def pending_def queued_def
        new_event_def mark_awaited_def call_soon_def found_def split: if_splits\<close>)

lemma inv_worker_step:
  assumes "handoff_inv b c" and "worker_step b c = Some c'"
  shows "handoff_inv b c'"
proof (cases "sched c")
  case S_RunLoop
  with assms show ?thesis
    by (cases "worker c"; cases b)
      (auto simp: worker_step_def handoff_inv_def pending_def queued_def worker_inv_def
            outcome_def found_def ts_await_def ts_aexit_def call_soon_def
            split: if_splits option.splits coroutine.splits)
qed (use assms in \<open>auto simp: worker_step_def handoff_inv_def pending_def queued_def found_def
        split: if_splits\<close>)

lemma inv_step: "handoff_inv b c \<Longrightarrow> step b m c = Some c' \<Longrightarrow> handoff_inv b c'"
  by (cases m) (auto simp: step_def intro: inv_scheduler_step inv_worker_step)

lemma inv_trace:
  "handoff_inv b c \<Longrightarrow> trace b ms c = Some tr \<Longrightarrow> \<forall>c' \<in> set tr. handoff_inv b c'"
proof (induction ms arbitrary: c tr)
  case Nil
  then show ?case by auto
next
  case (Cons m ms)
  then obtain c1 tr1 where s: "step b m c = Some c1" and t: "trace b ms c1 = Some tr1"
    and tr: "tr = c # tr1"
    by (auto split: option.splits)
  have "handoff_inv b c1" using Cons.prems(1) s by (rule inv_step)
  then have "\<forall>c' \<in> set tr1. handoff_inv b c'" using t by (rule Cons.IH)
  with Cons.prems(1) tr show ?case by simp
qed

lemma trace_nonempty: "trace b ms c = Some tr \<Longrightarrow> tr \<noteq> [] \<and> hd tr = c"
  by (cases ms) (auto split: option.splits)

lemma inv_reachable:
  assumes "trace b ms (initial ex shut n refs oth) = Some tr" and "c \<in> set tr"
  shows "handoff_inv b c"
  using inv_trace [OF inv_initial assms(1)] assms(2) by blast

lemma inv_latch_scheduled:
  "handoff_inv b c \<Longrightarrow> sched c = S_Line44 \<or> sched c = S_TaskStep YieldFuture
     \<Longrightarrow> event c = Some False \<and> count_list (ready c) EventSet = 1"
  by (auto simp: handoff_inv_def pending_def)

lemma inv_worker_after_wait:
  "handoff_inv b c \<Longrightarrow> worker c = W_Line26 \<or> worker_in_continuation c \<or> worker c = W_Other
     \<Longrightarrow> event c = Some True \<and> parked c \<and> \<not> exited (ts c)"
  by (auto simp: handoff_inv_def pending_def queued_def worker_inv_def parked_def
        worker_in_continuation_def split: sched_pc.splits)

lemma inv_worker_runs:
  "handoff_inv b c \<Longrightarrow> worker_runs c = Some k
     \<Longrightarrow> referrers c \<noteq> [] \<and> k = hd (referrers c) \<and> coro c = Some k"
  by (auto simp: handoff_inv_def pending_def queued_def worker_inv_def worker_runs_def
        found_def split: sched_pc.splits worker_pc.splits)

lemma inv_worker_resumed:
  "handoff_inv b c \<Longrightarrow> worker_resumed c \<Longrightarrow> event c = Some True"
  by (auto simp: handoff_inv_def pending_def queued_def worker_inv_def worker_resumed_def
        split: sched_pc.splits worker_pc.splits)

lemma inv_resumed:
  "handoff_inv b c \<Longrightarrow> sched c = S_Resumed r
     \<Longrightarrow> worker c = W_Finished \<and> r = outcome b c \<and> found c"
  by (auto simp: handoff_inv_def)

lemma inv_exclusive:
  "handoff_inv b c \<Longrightarrow> \<not> (scheduler_in_continuation c \<and> worker_in_continuation c)"
  by (auto simp: handoff_inv_def pending_def queued_def worker_inv_def
        scheduler_in_continuation_def worker_in_continuation_def split: sched_pc.splits)

lemma inv_outcome:
  "handoff_inv b c \<Longrightarrow> worker c = W_Return r \<Longrightarrow> r = outcome b c \<and> found c"
  by (auto simp: handoff_inv_def pending_def queued_def worker_inv_def split: sched_pc.splits)

lemma initial_event [simp]: "event (initial ex shut n refs oth) = None"
  by (simp add: initial_def)

text \<open>What no step changes: the referrers, the executor, its pool, the other coroutine.\<close>

lemma static_step:
  assumes "step b m c = Some c'"
  shows "referrers c' = referrers c \<and> other_send c' = other_send c
       \<and> executor (ts c') = executor (ts c) \<and> pool_shutdown c' = pool_shutdown c"
proof (cases m)
  case Sched
  with assms show ?thesis
    by (cases "sched c")
      (auto simp: step_def scheduler_step_def find_coro_def new_event_def
            submit_exec_when_ready_def mark_awaited_def call_soon_def event_set_def
            split: if_splits list.splits callback.splits yielded.splits)
next
  case Work
  with assms show ?thesis
    by (cases "worker c"; cases b)
      (auto simp: step_def worker_step_def ts_await_def ts_aexit_def call_soon_def
            split: if_splits option.splits coroutine.splits)
qed

lemma static_trace:
  "trace b ms c = Some tr \<Longrightarrow> c' \<in> set tr \<Longrightarrow>
     referrers c' = referrers c \<and> other_send c' = other_send c
     \<and> executor (ts c') = executor (ts c) \<and> pool_shutdown c' = pool_shutdown c"
proof (induction ms arbitrary: c tr)
  case Nil
  then show ?case by auto
next
  case (Cons m ms)
  then obtain c1 tr1 where s: "step b m c = Some c1" and t: "trace b ms c1 = Some tr1"
    and tr: "tr = c # tr1"
    by (auto split: option.splits)
  show ?case
  proof (cases "c' = c")
    case True
    then show ?thesis by simp
  next
    case False
    with Cons.prems(2) tr have "c' \<in> set tr1" by simp
    with t have "referrers c' = referrers c1 \<and> other_send c' = other_send c1
       \<and> executor (ts c') = executor (ts c1) \<and> pool_shutdown c' = pool_shutdown c1"
      by (rule Cons.IH)
    then show ?thesis using static_step [OF s] by simp
  qed
qed

lemma static_reachable:
  assumes "trace b ms (initial ex shut n refs oth) = Some tr" and "c \<in> set tr"
  shows "referrers c = refs \<and> other_send c = oth \<and> executor (ts c) = ex
       \<and> pool_shutdown c = shut"
  using static_trace [OF assms] by (simp add: initial_def ts_init_def)

subsection \<open>The event is set once\<close>

lemma event_step:
  assumes "handoff_inv b c" and "step b m c = Some c'"
  shows "(event c = Some True \<longrightarrow> event c' = Some True)
       \<and> (event c' = Some True \<longrightarrow> event c \<noteq> None)"
proof (cases m)
  case Sched
  show ?thesis
  proof (cases "sched c")
    case S_RunLoop
    with Sched assms show ?thesis
      by (auto simp: step_def scheduler_step_def handoff_inv_def event_set_def
            split: list.splits callback.splits)
  next
    case (S_TaskStep y)
    with Sched assms show ?thesis
      by (cases y) (auto simp: step_def scheduler_step_def handoff_inv_def call_soon_def)
  qed (use Sched assms in \<open>auto simp: step_def scheduler_step_def handoff_inv_def new_event_def
        find_coro_def submit_exec_when_ready_def mark_awaited_def call_soon_def
        split: if_splits list.splits\<close>)
next
  case Work
  with assms show ?thesis
    by (cases "worker c"; cases b)
      (auto simp: step_def worker_step_def ts_await_def ts_aexit_def call_soon_def
            split: if_splits option.splits coroutine.splits)
qed

lemma signals_trace:
  "handoff_inv b c \<Longrightarrow> trace b ms c = Some tr \<Longrightarrow>
     (event c = Some True \<longrightarrow> event (last tr) = Some True \<and> signals tr = 0)
   \<and> (event c \<noteq> Some True \<longrightarrow> signals tr = (if event (last tr) = Some True then 1 else 0))"
proof (induction ms arbitrary: c tr)
  case Nil
  then show ?case by auto
next
  case (Cons m ms)
  then obtain c1 tr1 where s: "step b m c = Some c1" and t: "trace b ms c1 = Some tr1"
    and tr: "tr = c # tr1"
    by (auto split: option.splits)
  have i1: "handoff_inv b c1" using Cons.prems(1) s by (rule inv_step)
  have ih: "(event c1 = Some True \<longrightarrow> event (last tr1) = Some True \<and> signals tr1 = 0)
   \<and> (event c1 \<noteq> Some True \<longrightarrow> signals tr1 = (if event (last tr1) = Some True then 1 else 0))"
    using i1 t by (rule Cons.IH)
  have ev: "(event c = Some True \<longrightarrow> event c1 = Some True)
       \<and> (event c1 = Some True \<longrightarrow> event c \<noteq> None)"
    using Cons.prems(1) s by (rule event_step)
  obtain tr2 where tr1: "tr1 = c1 # tr2" using trace_nonempty [OF t] by (cases tr1) auto
  show ?case using ih ev by (cases "event c") (auto simp: tr tr1)
qed

subsection \<open>Every run ends, and ends with the handoff done\<close>

lemma scheduler_step_weight:
  assumes "scheduler_step c = Some c'"
  shows "weight c' < weight c"
proof (cases "sched c")
  case S_RunLoop
  with assms show ?thesis
    by (auto simp: scheduler_step_def weight_def sched_rank_def event_set_def
          split: list.splits callback.splits)
next
  case (S_TaskStep y)
  with assms show ?thesis
    by (cases y) (auto simp: scheduler_step_def weight_def sched_rank_def call_soon_def)
qed (use assms in \<open>auto simp: scheduler_step_def weight_def sched_rank_def new_event_def
        find_coro_def submit_exec_when_ready_def mark_awaited_def call_soon_def
        split: if_splits list.splits\<close>)

lemma worker_step_weight:
  assumes "worker_step b c = Some c'"
  shows "weight c' < weight c"
  using assms
  by (cases "worker c"; cases b)
    (auto simp: worker_step_def weight_def worker_rank_def ts_await_def ts_aexit_def
          call_soon_def split: if_splits option.splits coroutine.splits)

lemma step_weight: "step b m c = Some c' \<Longrightarrow> weight c' < weight c"
  by (cases m) (auto simp: step_def intro: scheduler_step_weight worker_step_weight)

lemma trace_weight:
  "trace b ms c = Some tr \<Longrightarrow> length ms + weight (last tr) \<le> weight c"
proof (induction ms arbitrary: c tr)
  case Nil
  then show ?case by auto
next
  case (Cons m ms)
  then obtain c1 tr1 where s: "step b m c = Some c1" and t: "trace b ms c1 = Some tr1"
    and tr: "tr = c # tr1"
    by (auto split: option.splits)
  have "length ms + weight (last tr1) \<le> weight c1" using t by (rule Cons.IH)
  moreover have "weight c1 < weight c" using s by (rule step_weight)
  moreover have "last tr = last tr1" using trace_nonempty [OF t] tr by auto
  ultimately show ?case by simp
qed

lemma weight_initial: "weight (initial ex shut n refs oth) = 34 + n"
  by (simp add: weight_def initial_def sched_rank_def worker_rank_def)

lemma inv_stuck:
  assumes "handoff_inv b c" and "scheduler_step c = None" and "worker_step b c = None"
  shows "(\<exists>err. sched c = S_Raised err)
       \<or> (sched c = S_Resumed (outcome b c) \<and> worker c = W_Finished)"
proof (cases "sched c")
  case S_RunLoop
  have r: "ready c = []"
    using assms(2) S_RunLoop
    by (auto simp: scheduler_step_def split: list.splits callback.splits)
  with assms(1,3) S_RunLoop show ?thesis
    by (cases "worker c"; cases b)
      (auto simp: handoff_inv_def pending_def queued_def worker_inv_def worker_step_def
            ts_await_def ts_aexit_def split: if_splits option.splits coroutine.splits)
next
  case (S_TaskStep y)
  with assms(2) show ?thesis by (cases y) (auto simp: scheduler_step_def)
qed (use assms in \<open>auto simp: scheduler_step_def handoff_inv_def find_coro_def
        submit_exec_when_ready_def split: if_splits list.splits\<close>)

lemma inv_raised:
  "handoff_inv b c \<Longrightarrow> sched c = S_Raised err
     \<Longrightarrow> referrers c = [] \<or> \<not> is_executor (executor (ts c)) \<or> pool_shutdown c"
  by (simp add: handoff_inv_def)

subsection \<open>The steps of the event loop's thread run \<^verbatim>\<open>__await__\<close>\<close>

lemma scheduler_runs_await:
  assumes "sched c = S_Line31" and "\<not> exited (ts c)" and "referrers c \<noteq> []"
    and "is_executor (executor (ts c))" and "\<not> pool_shutdown c"
  shows "\<exists>tr s'. trace b (replicate 7 Sched) c = Some tr
           \<and> ts_await c = Inr ([YieldFuture], s')
           \<and> last tr = s'\<lparr>sched := S_TaskStep YieldFuture\<rparr>"
  using assms
  by (cases "referrers c")
    (simp_all add: numeral_eq_Suc step_def scheduler_step_def ts_await_def find_coro_def
        new_event_def submit_exec_when_ready_def mark_awaited_def call_soon_def)

lemma scheduler_runs_await_exited:
  assumes "sched c = S_Line31" and "exited (ts c)"
  shows "\<exists>tr s'. trace b (replicate 2 Sched) c = Some tr
           \<and> ts_await c = Inr ([YieldNone], s')
           \<and> last tr = s'\<lparr>sched := S_TaskStep YieldNone\<rparr>"
  using assms
  by (simp add: numeral_eq_Suc step_def scheduler_step_def ts_await_def)

subsection \<open>The example schedules run\<close>

lemma handoff_schedule_runs:
  "trace Completes handoff_schedule (initial VNone False 1 [Own] None) \<noteq> None"
  by code_simp

lemma await_schedule_runs:
  "trace Awaits await_schedule (initial VNone False 1 [Own] None) \<noteq> None"
  by code_simp


subsection \<open>What holds of every handoff\<close>

text \<open>
  In every run of a handoff, under every interleaving of the two threads and whatever
  lines 36 to 38 find: once line 43 has run and until the event loop's thread is back
  in its run loop, the event is still reset and its release is one ready callback of
  the loop; the event goes from reset to set at most once, and exactly once in a run in
  which the worker resumes a coroutine; the worker is past \<^verbatim>\<open>event.wait()\<close> only when
  the event is set; whenever the worker is about to resume a coroutine, or runs one,
  the continuation of this handoff is parked; and the coroutine the worker runs is the
  first of the referrers.
\<close>

theorem latch_released_after_parking:
  assumes "trace b ms (initial ex shut n refs oth) = Some tr"
  shows "signals tr \<le> 1
       \<and> (worker_resumed (last tr) \<longrightarrow> signals tr = 1)
       \<and> (\<forall>c \<in> set tr.
            (sched c = S_Line44 \<or> sched c = S_TaskStep YieldFuture
               \<longrightarrow> event c = Some False \<and> count_list (ready c) EventSet = 1)
          \<and> (worker_resumed c \<longrightarrow> event c = Some True)
          \<and> (worker c = W_Line26 \<or> worker_in_continuation c \<or> worker c = W_Other
               \<longrightarrow> event c = Some True \<and> parked c)
          \<and> (\<forall>k. worker_runs c = Some k \<longrightarrow> refs \<noteq> [] \<and> k = hd refs))"
proof -
  have sig: "signals tr = (if event (last tr) = Some True then 1 else 0)"
    using signals_trace [OF inv_initial assms] by simp
  have last: "last tr \<in> set tr"
    using trace_nonempty [OF assms] by simp
  have "worker_resumed (last tr) \<longrightarrow> signals tr = 1"
    using sig inv_worker_resumed [OF inv_reachable [OF assms last]] by simp
  moreover have "signals tr \<le> 1" using sig by simp
  moreover have "\<forall>c \<in> set tr.
            (sched c = S_Line44 \<or> sched c = S_TaskStep YieldFuture
               \<longrightarrow> event c = Some False \<and> count_list (ready c) EventSet = 1)
          \<and> (worker_resumed c \<longrightarrow> event c = Some True)
          \<and> (worker c = W_Line26 \<or> worker_in_continuation c \<or> worker c = W_Other
               \<longrightarrow> event c = Some True \<and> parked c)
          \<and> (\<forall>k. worker_runs c = Some k \<longrightarrow> refs \<noteq> [] \<and> k = hd refs)"
  proof
    fix c assume c: "c \<in> set tr"
    note i = inv_reachable [OF assms c]
    have r: "referrers c = refs" using static_reachable [OF assms c] by simp
    show "(sched c = S_Line44 \<or> sched c = S_TaskStep YieldFuture
               \<longrightarrow> event c = Some False \<and> count_list (ready c) EventSet = 1)
          \<and> (worker_resumed c \<longrightarrow> event c = Some True)
          \<and> (worker c = W_Line26 \<or> worker_in_continuation c \<or> worker c = W_Other
               \<longrightarrow> event c = Some True \<and> parked c)
          \<and> (\<forall>k. worker_runs c = Some k \<longrightarrow> refs \<noteq> [] \<and> k = hd refs)"
      using inv_latch_scheduled [OF i] inv_worker_resumed [OF i] inv_worker_after_wait [OF i]
        inv_worker_runs [OF i] r
      by blast
  qed
  ultimately show ?thesis by blast
qed

theorem latch_released_witness:
  "trace Completes handoff_schedule (initial VNone False 1 [Own] None) \<noteq> None
   \<and> worker_resumed (last (the (trace Completes handoff_schedule (initial VNone False 1 [Own] None))))
   \<and> signals (the (trace Completes handoff_schedule (initial VNone False 1 [Own] None))) = 1
   \<and> sched (last (the (trace Completes handoff_schedule (initial VNone False 1 [Own] None))))
       = S_Resumed None"
proof -
  let ?tr = "the (trace Completes handoff_schedule (initial VNone False 1 [Own] None))"
  have h: "trace Completes handoff_schedule (initial VNone False 1 [Own] None) = Some ?tr"
    using handoff_schedule_runs by simp
  have r: "worker_resumed (last ?tr)" by code_simp
  have "signals ?tr = 1"
    using latch_released_after_parking [OF h] r by blast
  moreover have "sched (last ?tr) = S_Resumed None" by code_simp
  ultimately show ?thesis using handoff_schedule_runs r by blast
qed

text \<open>
  In every configuration a handoff reaches, the continuation of the handoff is run by
  at most one thread: never by both; not by the worker while the event is not set;
  while the worker runs it, the event loop's thread is parked in its run loop and
  \<^verbatim>\<open>exited\<close> is still false; and the event loop's thread resumes it only when the
  worker's task has finished. Every run ends within \<open>34 + n\<close> steps. When line 37 finds
  a coroutine and the executor accepts the task, a run in which neither thread can move
  any more has ended with the worker's task finished and the continuation resumed on
  the event loop's thread, with the outcome of the worker's task; when line 37 finds
  the continuation of the handoff, the worker never runs another coroutine.
\<close>

theorem continuation_on_one_thread:
  assumes "trace b ms (initial ex shut n refs oth) = Some tr"
  shows "(\<forall>c \<in> set tr.
            \<not> (scheduler_in_continuation c \<and> worker_in_continuation c)
          \<and> (event c \<noteq> Some True \<longrightarrow> \<not> worker_in_continuation c)
          \<and> (worker_in_continuation c \<longrightarrow> parked c \<and> \<not> exited (ts c))
          \<and> (\<forall>r. sched c = S_Resumed r \<longrightarrow> worker c = W_Finished)
          \<and> (hd refs = Own \<longrightarrow> worker c \<noteq> W_Other))
       \<and> length ms \<le> 34 + n
       \<and> (refs \<noteq> [] \<and> is_executor ex \<and> \<not> shut
            \<and> scheduler_step (last tr) = None \<and> worker_step b (last tr) = None
            \<longrightarrow> sched (last tr) = S_Resumed (outcome b (last tr))
              \<and> worker (last tr) = W_Finished)"
proof -
  have safe: "\<forall>c \<in> set tr.
            \<not> (scheduler_in_continuation c \<and> worker_in_continuation c)
          \<and> (event c \<noteq> Some True \<longrightarrow> \<not> worker_in_continuation c)
          \<and> (worker_in_continuation c \<longrightarrow> parked c \<and> \<not> exited (ts c))
          \<and> (\<forall>r. sched c = S_Resumed r \<longrightarrow> worker c = W_Finished)
          \<and> (hd refs = Own \<longrightarrow> worker c \<noteq> W_Other)"
  proof
    fix c assume c: "c \<in> set tr"
    note i = inv_reachable [OF assms c]
    have r: "referrers c = refs" using static_reachable [OF assms c] by simp
    have "hd refs = Own \<longrightarrow> worker c \<noteq> W_Other"
      using inv_worker_runs [OF i, of Other] r by (auto simp: worker_runs_def)
    then show "\<not> (scheduler_in_continuation c \<and> worker_in_continuation c)
          \<and> (event c \<noteq> Some True \<longrightarrow> \<not> worker_in_continuation c)
          \<and> (worker_in_continuation c \<longrightarrow> parked c \<and> \<not> exited (ts c))
          \<and> (\<forall>r. sched c = S_Resumed r \<longrightarrow> worker c = W_Finished)
          \<and> (hd refs = Own \<longrightarrow> worker c \<noteq> W_Other)"
      using inv_exclusive [OF i] inv_worker_after_wait [OF i] inv_resumed [OF i]
      by blast
  qed
  have bound: "length ms \<le> 34 + n"
    using trace_weight [OF assms] by (simp add: weight_initial)
  have last: "last tr \<in> set tr"
    using trace_nonempty [OF assms] by simp
  have i: "handoff_inv b (last tr)"
    using assms last by (rule inv_reachable)
  have st: "referrers (last tr) = refs \<and> executor (ts (last tr)) = ex
      \<and> pool_shutdown (last tr) = shut"
    using static_reachable [OF assms last] by simp
  have "refs \<noteq> [] \<and> is_executor ex \<and> \<not> shut \<Longrightarrow> sched (last tr) \<noteq> S_Raised err" for err
    using inv_raised [OF i] st by auto
  then have live: "refs \<noteq> [] \<and> is_executor ex \<and> \<not> shut
            \<and> scheduler_step (last tr) = None \<and> worker_step b (last tr) = None
            \<longrightarrow> sched (last tr) = S_Resumed (outcome b (last tr))
              \<and> worker (last tr) = W_Finished"
    using inv_stuck [OF i] by blast
  show ?thesis using safe bound live by blast
qed

theorem continuation_on_one_thread_witness:
  "trace Completes handoff_schedule (initial VNone False 1 [Own] None) \<noteq> None
   \<and> worker_in_continuation
       (the (trace Completes handoff_schedule (initial VNone False 1 [Own] None)) ! 13)
   \<and> \<not> scheduler_in_continuation
       (the (trace Completes handoff_schedule (initial VNone False 1 [Own] None)) ! 13)
   \<and> parked (the (trace Completes handoff_schedule (initial VNone False 1 [Own] None)) ! 13)
   \<and> scheduler_in_continuation
       (last (the (trace Completes handoff_schedule (initial VNone False 1 [Own] None))))
   \<and> worker (last (the (trace Completes handoff_schedule (initial VNone False 1 [Own] None))))
       = W_Finished
   \<and> length handoff_schedule \<le> 34 + 1"
proof -
  let ?tr = "the (trace Completes handoff_schedule (initial VNone False 1 [Own] None))"
  have h: "trace Completes handoff_schedule (initial VNone False 1 [Own] None) = Some ?tr"
    using handoff_schedule_runs by simp
  have len: "length ?tr = 19" by code_simp
  have w: "worker_in_continuation (?tr ! 13)" by code_simp
  have m: "?tr ! 13 \<in> set ?tr" using len by simp
  have l: "last ?tr \<in> set ?tr" using len by (intro last_in_set) auto
  have s: "sched (last ?tr) = S_Resumed None" by code_simp
  note t = continuation_on_one_thread [OF h]
  have "\<not> scheduler_in_continuation (?tr ! 13)" "parked (?tr ! 13)"
    using t m w by blast+
  moreover have "worker (last ?tr) = W_Finished" using t l s by blast
  moreover have "scheduler_in_continuation (last ?tr)"
    using s by (simp add: scheduler_in_continuation_def)
  moreover have "length handoff_schedule \<le> 34 + 1" using t by blast
  ultimately show ?thesis using handoff_schedule_runs w by blast
qed

subsection \<open>The claims\<close>


text \<open>
  Claim C2: during a handoff the paused continuation is run by one thread at a time,
  by the event loop's thread until the latch is released, then by the worker until the
  block's exit, then by the event loop's thread again. The code does not keep this when
  two coroutines of one coroutine function are alive and the collector lists the other
  one first: the worker never runs the continuation of the handoff, whose block
  therefore runs on no worker; it runs the code of the other coroutine, which nobody
  handed to it; and the continuation of the handoff is resumed on the event loop's
  thread with the \<^verbatim>\<open>RuntimeError\<close> of line 29, \<^verbatim>\<open>exited\<close> still false.
\<close>

theorem other_coroutine_runs_on_worker:
  \<open>list_all (\<lambda>c. worker_runs c \<noteq> Some Own) (the (trace Completes other_schedule two_coroutines))
   \<and> worker (the (trace Completes other_schedule two_coroutines) ! 13) = W_Other
   \<and> sched (the (trace Completes other_schedule two_coroutines) ! 13) = S_RunLoop
   \<and> sched (last (the (trace Completes other_schedule two_coroutines)))
       = S_Resumed (Some (RuntimeError ''attempted to "await" in a worker thread''))
   \<and> worker (last (the (trace Completes other_schedule two_coroutines))) = W_Finished
   \<and> exited (ts (last (the (trace Completes other_schedule two_coroutines)))) = False\<close>
proof -
  let ?tr = "the (trace Completes other_schedule two_coroutines)"
  have "list_all (\<lambda>c. worker_runs c \<noteq> Some Own) ?tr" by code_simp
  moreover have "worker (?tr ! 13) = W_Other" by code_simp
  moreover have "sched (?tr ! 13) = S_RunLoop" by code_simp
  moreover have \<open>sched (last ?tr)
       = S_Resumed (Some (RuntimeError ''attempted to "await" in a worker thread''))\<close>
    by code_simp
  moreover have "worker (last ?tr) = W_Finished" by code_simp
  moreover have "exited (ts (last ?tr)) = False" by code_simp
  ultimately show ?thesis by blast
qed

text \<open>
  Claim C7, as amended. When \<^verbatim>\<open>exited\<close> is already true, \<^verbatim>\<open>__await__\<close> creates no
  event, submits nothing to the executor and schedules no callback: it leaves the state
  as it is. It does suspend once, by a bare \<^verbatim>\<open>yield\<close>, and returns when resumed.
\<close>

theorem await_after_exit_yields_once:
  assumes "exited (ts s)"
  shows "ts_await s = Inr ([YieldNone], s)"
  using assms by (simp add: ts_await_def)

theorem await_after_exit_witness:
  "exited (ts (ts_aexit fresh_bridge))
   \<and> ts_await (ts_aexit fresh_bridge) = Inr ([YieldNone], ts_aexit fresh_bridge)
   \<and> event (ts_aexit fresh_bridge) = None
   \<and> submitted (ts_aexit fresh_bridge) = 0
   \<and> ready (ts_aexit fresh_bridge) = []"
  using await_after_exit_yields_once [of "ts_aexit fresh_bridge"]
  by (simp add: ts_aexit_def fresh_bridge_def)

text \<open>
  The claim as stated fails: after \<^verbatim>\<open>__aexit__\<close>, the generator does not return
  without yielding.
\<close>

theorem await_after_exit_counterexample:
  "ts_await (ts_aexit fresh_bridge) \<noteq> Inr ([], ts_aexit fresh_bridge)
   \<and> fst (projr (ts_await (ts_aexit fresh_bridge))) = [YieldNone]"
  by (simp add: ts_await_def ts_aexit_def fresh_bridge_def)

text \<open>
  Claim C8. When the worker has resumed the continuation of the handoff and the block
  awaits on the worker thread, before \<^verbatim>\<open>__aexit__\<close> has set \<^verbatim>\<open>exited\<close>: in every
  run, the worker's task can only end by raising the \<^verbatim>\<open>RuntimeError\<close> that names the
  await in a worker thread, and the task that owns the continuation can only be resumed
  with that exception; and once the worker runs the block, its next three steps are
  never blocked: line 28 finds \<^verbatim>\<open>exited\<close> false, the task raises, and the loop is told.
\<close>

theorem await_in_worker_raises:
  assumes \<open>trace Awaits ms (initial ex shut n (Own # refs) oth) = Some tr\<close>
  shows \<open>(\<forall>c \<in> set tr. \<forall>r. worker c = W_Return r \<or> sched c = S_Resumed r
            \<longrightarrow> r = Some (RuntimeError ''attempted to "await" in a worker thread''))
       \<and> (worker (last tr) = W_Body \<longrightarrow>
            (\<exists>c1 c2 c3.
               trace Awaits [Work, Work, Work] (last tr) = Some [last tr, c1, c2, c3]
             \<and> worker c1 = W_Line28 \<and> \<not> exited (ts c1)
             \<and> worker c2 = W_Return (Some (RuntimeError ''attempted to "await" in a worker thread''))
             \<and> worker c3 = W_Finished
             \<and> ready c3 = ready (last tr)
                 @ [TaskStep (Some (RuntimeError ''attempted to "await" in a worker thread''))]))\<close>
proof -
  have o: \<open>outcome Awaits c = Some (RuntimeError ''attempted to "await" in a worker thread'')\<close>
    if "c \<in> set tr" and "found c" for c
  proof -
    have "referrers c = Own # refs" using static_reachable [OF assms that(1)] by simp
    with that(2) have "coro c = Some Own" by (simp add: found_def)
    then show ?thesis by (simp add: outcome_def)
  qed
  have safe: \<open>\<forall>c \<in> set tr. \<forall>r. worker c = W_Return r \<or> sched c = S_Resumed r
            \<longrightarrow> r = Some (RuntimeError ''attempted to "await" in a worker thread'')\<close>
  proof (intro ballI allI impI)
    fix c r
    assume c: "c \<in> set tr" and h: "worker c = W_Return r \<or> sched c = S_Resumed r"
    note i = inv_reachable [OF assms c]
    from h have "r = outcome Awaits c \<and> found c"
      using inv_outcome [OF i] inv_resumed [OF i] by blast
    then show \<open>r = Some (RuntimeError ''attempted to "await" in a worker thread'')\<close>
      using o [OF c] by simp
  qed
  have last: "last tr \<in> set tr"
    using trace_nonempty [OF assms] by simp
  have live: \<open>worker (last tr) = W_Body \<longrightarrow>
            (\<exists>c1 c2 c3.
               trace Awaits [Work, Work, Work] (last tr) = Some [last tr, c1, c2, c3]
             \<and> worker c1 = W_Line28 \<and> \<not> exited (ts c1)
             \<and> worker c2 = W_Return (Some (RuntimeError ''attempted to "await" in a worker thread''))
             \<and> worker c3 = W_Finished
             \<and> ready c3 = ready (last tr)
                 @ [TaskStep (Some (RuntimeError ''attempted to "await" in a worker thread''))])\<close>
  proof
    assume w: "worker (last tr) = W_Body"
    have "\<not> exited (ts (last tr))"
      using inv_worker_after_wait [OF inv_reachable [OF assms last]] w
      by (simp add: worker_in_continuation_def)
    with w show \<open>\<exists>c1 c2 c3.
               trace Awaits [Work, Work, Work] (last tr) = Some [last tr, c1, c2, c3]
             \<and> worker c1 = W_Line28 \<and> \<not> exited (ts c1)
             \<and> worker c2 = W_Return (Some (RuntimeError ''attempted to "await" in a worker thread''))
             \<and> worker c3 = W_Finished
             \<and> ready c3 = ready (last tr)
                 @ [TaskStep (Some (RuntimeError ''attempted to "await" in a worker thread''))]\<close>
      by (simp add: step_def worker_step_def call_soon_def)
  qed
  show ?thesis using safe live by blast
qed

theorem await_in_worker_witness:
  \<open>trace Awaits await_schedule (initial VNone False 1 [Own] None) \<noteq> None
   \<and> worker (last (the (trace Awaits await_schedule (initial VNone False 1 [Own] None)))) = W_Body
   \<and> map worker (the (trace Awaits [Work, Work, Work]
           (last (the (trace Awaits await_schedule (initial VNone False 1 [Own] None))))))
       = [W_Body, W_Line28,
          W_Return (Some (RuntimeError ''attempted to "await" in a worker thread'')), W_Finished]\<close>
proof -
  let ?tr = "the (trace Awaits await_schedule (initial VNone False 1 [Own] None))"
  have h: "trace Awaits await_schedule (initial VNone False 1 [Own] None) = Some ?tr"
    using await_schedule_runs by simp
  have w: "worker (last ?tr) = W_Body" by code_simp
  from await_in_worker_raises [OF h] w obtain c1 c2 c3 where
    \<open>trace Awaits [Work, Work, Work] (last ?tr) = Some [last ?tr, c1, c2, c3]\<close>
    \<open>worker c1 = W_Line28\<close>
    \<open>worker c2 = W_Return (Some (RuntimeError ''attempted to "await" in a worker thread''))\<close>
    \<open>worker c3 = W_Finished\<close>
    by blast
  then show ?thesis using await_schedule_runs w by simp
qed

end
